theory Spec2Isabelle
  imports Complex_Main
begin

section \<open>Characters and strings\<close>

text \<open>
  A Python \<open>str\<close> is modelled as a \<open>string\<close>, one \<open>char\<close> per code point, which covers
  the code points 0 to 255. The character tests below are the ones the sources use,
  with the values they take on that range: \<open>str.isdigit\<close> also accepts the superscript
  digits U+00B2, U+00B3 and U+00B9; the pattern class \<open>\d\<close> accepts the ten ASCII digits
  only; \<open>\s\<close> accepts the ASCII white space, the separators 28 to 31, U+0085 and U+00A0;
  \<open>str.lower\<close> moves \<open>A-Z\<close> and the accented capitals U+00C0 to U+00DE (but not the
  multiplication sign U+00D7) up by 32.
\<close>

definition code :: "char \<Rightarrow> nat" where
  "code c = of_char c"

definition isdigit :: "char \<Rightarrow> bool" where
  "isdigit c = ((48 \<le> code c \<and> code c \<le> 57) \<or> code c = 178 \<or> code c = 179 \<or> code c = 185)"

definition re_digit :: "char \<Rightarrow> bool" where
  "re_digit c = (48 \<le> code c \<and> code c \<le> 57)"

definition re_space :: "char \<Rightarrow> bool" where
  "re_space c = ((9 \<le> code c \<and> code c \<le> 13) \<or> (28 \<le> code c \<and> code c \<le> 32)
                 \<or> code c = 133 \<or> code c = 160)"

definition isupper :: "char \<Rightarrow> bool" where
  "isupper c = ((65 \<le> code c \<and> code c \<le> 90) \<or> (192 \<le> code c \<and> code c \<le> 214)
                \<or> (216 \<le> code c \<and> code c \<le> 222))"

definition lower_char :: "char \<Rightarrow> char" where
  "lower_char c = (if isupper c then char_of (code c + 32) else c)"

definition lower :: "string \<Rightarrow> string" where
  "lower s = map lower_char s"

text \<open>The slice \<open>s[-k:]\<close>: the last \<open>k\<close> elements, or all of \<open>s\<close> when it is shorter.\<close>

definition slice_last :: "nat \<Rightarrow> 'a list \<Rightarrow> 'a list" where
  "slice_last k xs = drop (length xs - k) xs"


section \<open>The candidate record (src/models.py)\<close>

text \<open>
  The dataclass \<open>Electrician\<close>. A Python \<open>float\<close> is modelled by a real number: the code
  under study only copies a rating and tests it for \<open>None\<close> and zero.
\<close>

record Electrician =
  name :: string
  phone :: string
  city :: string
  state :: string
  address :: "string option"
  pincode :: "string option"
  business_name :: "string option"
  email :: "string option"
  website :: "string option"
  services :: "string list"
  experience_years :: "int option"
  rating :: "real option"
  review_count :: "int option"
  source :: string
  source_url :: "string option"
  scraped_at :: string
  verified :: bool

text \<open>
  The dataclass constructor called with the four required fields only; \<open>now_iso\<close> is the
  value of the default factory \<open>datetime.now().isoformat()\<close>.
\<close>

definition Electrician_init :: "string \<Rightarrow> string \<Rightarrow> string \<Rightarrow> string \<Rightarrow> string \<Rightarrow> Electrician" where
  "Electrician_init nm ph ct st now_iso =
     \<lparr> Electrician.name = nm, Electrician.phone = ph, Electrician.city = ct,
       Electrician.state = st, Electrician.address = None, Electrician.pincode = None,
       Electrician.business_name = None, Electrician.email = None,
       Electrician.website = None, Electrician.services = [],
       Electrician.experience_years = None, Electrician.rating = None,
       Electrician.review_count = None, Electrician.source = [],
       Electrician.source_url = None, Electrician.scraped_at = now_iso,
       Electrician.verified = False \<rparr>"

definition get_unique_key :: "Electrician \<Rightarrow> string" where
  "get_unique_key e =
     (let phone_normalized = slice_last 10 (filter isdigit (Electrician.phone e))
      in phone_normalized @ ''_'' @ lower (Electrician.city e) @ ''_'' @ lower (Electrician.state e))"


section \<open>The table and the upsert (src/storage.py)\<close>

datatype datetime = DateTime nat nat nat nat nat nat nat

datatype py_error = ValueError string | OverflowError

text \<open>
  The library functions the storage code calls: the clock (\<open>utcnow k\<close> is the reading
  of the \<open>k\<close>-th call of \<open>datetime.utcnow()\<close>), \<open>datetime.fromisoformat\<close> (\<open>None\<close> where
  it raises \<open>ValueError\<close>) and \<open>json.dumps\<close> on a list of strings.
\<close>

record env =
  utcnow :: "nat \<Rightarrow> datetime"
  fromisoformat :: "string \<Rightarrow> datetime option"
  json_dumps :: "string list \<Rightarrow> string"

text \<open>
  A row of the table \<open>electricians\<close>. The columns declared \<open>nullable=False\<close> hold a
  value, every other column an optional one. \<open>id_pk\<close> is the column \<open>id\<close>.
\<close>

record ElectricianDB =
  id_pk :: "nat option"
  name :: string
  phone :: string
  city :: string
  state :: string
  address :: "string option"
  pincode :: "string option"
  business_name :: "string option"
  email :: "string option"
  website :: "string option"
  services :: "string option"
  experience_years :: "int option"
  rating :: "real option"
  review_count :: "int option"
  source :: string
  source_url :: "string option"
  verified :: "bool option"
  scraped_at :: "datetime option"
  unique_key :: "string option"
  category :: "string option"
  service_description :: "string option"
  smart_meter_score :: "int option"
  smart_meter_notes :: "string option"
  verified_by :: "string option"
  verified_at :: "datetime option"

text \<open>
  \<open>ElectricianDB.from_electrician\<close>, started when the clock has been read \<open>t\<close> times.
  It returns the new object and the number of clock readings after the call, or the
  \<open>ValueError\<close> of \<open>fromisoformat\<close>.
\<close>

definition from_electrician :: "env \<Rightarrow> nat \<Rightarrow> Electrician \<Rightarrow> py_error + (ElectricianDB \<times> nat)" where
  "from_electrician ev t electrician =
     (case (if Electrician.scraped_at electrician \<noteq> []
            then (case fromisoformat ev (Electrician.scraped_at electrician) of
                    None \<Rightarrow> Inl (ValueError (Electrician.scraped_at electrician))
                  | Some d \<Rightarrow> Inr (d, t))
            else Inr (utcnow ev t, Suc t)) of
        Inl err \<Rightarrow> Inl err
      | Inr (stamp, t') \<Rightarrow>
          Inr (\<lparr> id_pk = None,
                 name = Electrician.name electrician,
                 phone = Electrician.phone electrician,
                 city = Electrician.city electrician,
                 state = Electrician.state electrician,
                 address = Electrician.address electrician,
                 pincode = Electrician.pincode electrician,
                 business_name = Electrician.business_name electrician,
                 email = Electrician.email electrician,
                 website = Electrician.website electrician,
                 services = (if Electrician.services electrician \<noteq> []
                             then Some (json_dumps ev (Electrician.services electrician))
                             else None),
                 experience_years = Electrician.experience_years electrician,
                 rating = Electrician.rating electrician,
                 review_count = Electrician.review_count electrician,
                 source = Electrician.source electrician,
                 source_url = Electrician.source_url electrician,
                 verified = Some (Electrician.verified electrician),
                 scraped_at = Some stamp,
                 unique_key = Some (get_unique_key electrician),
                 category = None,
                 service_description = None,
                 smart_meter_score = None,
                 smart_meter_notes = None,
                 verified_by = None,
                 verified_at = None \<rparr>, t'))"

text \<open>\<open>session.query(ElectricianDB).filter_by(unique_key=k).first()\<close>\<close>

definition has_key :: "string \<Rightarrow> ElectricianDB \<Rightarrow> bool" where
  "has_key k r = (unique_key r = Some k)"

definition query_first :: "string \<Rightarrow> ElectricianDB list \<Rightarrow> ElectricianDB option" where
  "query_first k rows = find (has_key k) rows"

text \<open>
  The database is SQLite, whose INTEGER columns hold 64-bit signed numbers: the driver
  refuses any other Python \<open>int\<close> with \<open>OverflowError\<close> when the statement is sent.
\<close>

definition sqlite_integer :: "int option \<Rightarrow> bool" where
  "sqlite_integer v = (case v of None \<Rightarrow> True | Some n \<Rightarrow> - (2 ^ 63) \<le> n \<and> n < 2 ^ 63)"

text \<open>
  \<open>session.add\<close> and the INSERT it leads to: the row joins the table, the database
  numbers it (one more than the largest \<open>id\<close> in use) and fills the column default of
  \<open>smart_meter_score\<close>, which \<open>from_electrician\<close> leaves unset. The INSERT is sent
  when the session is flushed, at the next query or at the commit, both inside the
  \<open>try\<close> block and with nothing the caller can observe in between; the model raises its
  \<open>OverflowError\<close> where the row is added.
\<close>

definition next_id :: "ElectricianDB list \<Rightarrow> nat" where
  "next_id rows = Suc (fold max (map (\<lambda>r. case id_pk r of None \<Rightarrow> 0 | Some i \<Rightarrow> i) rows) 0)"

definition inserted_row :: "ElectricianDB list \<Rightarrow> ElectricianDB \<Rightarrow> ElectricianDB" where
  "inserted_row rows r =
     r\<lparr> id_pk := Some (next_id rows),
        smart_meter_score := (case smart_meter_score r of None \<Rightarrow> Some 0 | Some v \<Rightarrow> Some v) \<rparr>"

definition session_add :: "ElectricianDB list \<Rightarrow> ElectricianDB \<Rightarrow> py_error + ElectricianDB list" where
  "session_add rows r =
     (if sqlite_integer (experience_years r) \<and> sqlite_integer (review_count r)
         \<and> sqlite_integer (smart_meter_score r)
      then Inr (rows @ [inserted_row rows r])
      else Inl OverflowError)"

text \<open>
  The loop over \<open>["name", "address", "rating", "review_count", "source_url"]\<close>: an
  attribute of \<open>db_record\<close> is written to \<open>existing\<close> when it is truthy, that is a
  non-empty string or a non-zero number.
\<close>

definition truthy_str :: "string option \<Rightarrow> bool" where
  "truthy_str v = (case v of None \<Rightarrow> False | Some s \<Rightarrow> s \<noteq> [])"

definition truthy_float :: "real option \<Rightarrow> bool" where
  "truthy_float v = (case v of None \<Rightarrow> False | Some x \<Rightarrow> x \<noteq> 0)"

definition truthy_int :: "int option \<Rightarrow> bool" where
  "truthy_int v = (case v of None \<Rightarrow> False | Some n \<Rightarrow> n \<noteq> 0)"

definition merge_fields :: "ElectricianDB \<Rightarrow> ElectricianDB \<Rightarrow> ElectricianDB" where
  "merge_fields existing db_record =
     (let e1 = (if name db_record \<noteq> [] then existing\<lparr>name := name db_record\<rparr> else existing);
          e2 = (if truthy_str (address db_record) then e1\<lparr>address := address db_record\<rparr> else e1);
          e3 = (if truthy_float (rating db_record) then e2\<lparr>rating := rating db_record\<rparr> else e2);
          e4 = (if truthy_int (review_count db_record)
                then e3\<lparr>review_count := review_count db_record\<rparr> else e3);
          e5 = (if truthy_str (source_url db_record)
                then e4\<lparr>source_url := source_url db_record\<rparr> else e4)
      in e5)"

text \<open>The object \<open>existing\<close> is the first row with the key; writing to it changes that row.\<close>

fun update_first :: "('a \<Rightarrow> bool) \<Rightarrow> ('a \<Rightarrow> 'a) \<Rightarrow> 'a list \<Rightarrow> 'a list" where
  "update_first P f [] = []"
| "update_first P f (x # xs) = (if P x then f x # xs else x # update_first P f xs)"

text \<open>
  The state of one call of \<open>save_to_database\<close>: the committed table, the table as the
  open transaction sees it, the number of clock readings so far and the local
  \<open>saved_count\<close>.
\<close>

record run_state =
  committed :: "ElectricianDB list"
  pending :: "ElectricianDB list"
  clock :: nat
  saved_count :: nat

definition rollback :: "run_state \<Rightarrow> run_state" where
  "rollback s = s\<lparr>pending := committed s\<rparr>"

definition commit :: "run_state \<Rightarrow> run_state" where
  "commit s = s\<lparr>committed := pending s\<rparr>"

text \<open>
  The body of the \<open>for\<close> loop, for one candidate. The UPDATE of an existing row carries
  the columns the loop has written; it fails as an INSERT does when the \<open>review_count\<close>
  it carries is out of range.
\<close>

definition loop_body :: "env \<Rightarrow> bool \<Rightarrow> Electrician \<Rightarrow> run_state \<Rightarrow> py_error + run_state" where
  "loop_body ev update_existing electrician s =
     (let k = get_unique_key electrician in
      case query_first k (pending s) of
        Some existing \<Rightarrow>
          (if update_existing
           then (case from_electrician ev (clock s) electrician of
                   Inl err \<Rightarrow> Inl err
                 | Inr (db_record, t1) \<Rightarrow>
                     (if truthy_int (review_count db_record)
                         \<and> \<not> sqlite_integer (review_count db_record)
                      then Inl OverflowError
                      else Inr (s\<lparr> pending :=
                                    update_first (has_key k)
                                      (\<lambda>ex. (merge_fields ex db_record)
                                              \<lparr>scraped_at := Some (utcnow ev t1)\<rparr>)
                                      (pending s),
                                  clock := Suc t1 \<rparr>)))
           else Inr s)
      | None \<Rightarrow>
          (case from_electrician ev (clock s) electrician of
             Inl err \<Rightarrow> Inl err
           | Inr (db_record, t1) \<Rightarrow>
               (case session_add (pending s) db_record of
                  Inl err \<Rightarrow> Inl err
                | Inr rows \<Rightarrow>
                    Inr (s\<lparr> pending := rows, clock := t1,
                            saved_count := saved_count s + 1 \<rparr>))))"

text \<open>The \<open>for\<close> loop: it stops at the first exception, in the state reached so far.\<close>

fun for_loop :: "env \<Rightarrow> bool \<Rightarrow> Electrician list \<Rightarrow> run_state \<Rightarrow> run_state \<times> py_error option" where
  "for_loop ev update_existing [] s = (s, None)"
| "for_loop ev update_existing (e # es) s =
     (case loop_body ev update_existing e s of
        Inl err \<Rightarrow> (s, Some err)
      | Inr s' \<Rightarrow> for_loop ev update_existing es s')"

text \<open>
  \<open>DataStorage.save_to_database\<close>, called on the table \<open>db\<close> when the clock has been
  read \<open>t\<close> times. The result is the table after the call and either the exception
  raised to the caller or the returned count. Two exceptions arise in the loop: the
  \<open>ValueError\<close> of a time stamp that cannot be read and the \<open>OverflowError\<close> of an
  integer the database cannot hold. After a loop without exception every statement has
  been accepted, and the commit makes the pending table the committed one.
\<close>

definition save_to_database ::
    "env \<Rightarrow> nat \<Rightarrow> Electrician list \<Rightarrow> bool \<Rightarrow> ElectricianDB list
      \<Rightarrow> ElectricianDB list \<times> (py_error + nat)" where
  "save_to_database ev t electricians update_existing db =
     (let session = \<lparr> committed = db, pending = db, clock = t, saved_count = 0 \<rparr> in
      case for_loop ev update_existing electricians session of
        (s, Some err) \<Rightarrow> (committed (rollback s), Inl err)
      | (s, None) \<Rightarrow> (committed (commit s), Inr (saved_count s)))"


section \<open>Phone extraction (src/scrapers/__init__.py, scrape_surat_verified.py)\<close>

text \<open>
  The five patterns of \<open>_extract_phone_numbers\<close> are sequences of single-character
  items, each a character class taken once or at most once: \<open>\d{9}\<close> is nine items.
  \<open>match_len p s\<close> is the length of the match of \<open>p\<close> at the start of \<open>s\<close>, found as the
  library finds it: an optional item is tried with its character first and without it
  if the rest then fails.
\<close>

datatype cclass = Lit char | Digit | D69 | Sep

fun in_class :: "cclass \<Rightarrow> char \<Rightarrow> bool" where
  "in_class (Lit a) c = (c = a)"
| "in_class Digit c = re_digit c"
| "in_class D69 c = (54 \<le> code c \<and> code c \<le> 57)"
| "in_class Sep c = (re_space c \<or> c = CHR ''-'')"

datatype item = One cclass | Opt cclass

type_synonym pattern = "item list"

fun match_len :: "pattern \<Rightarrow> string \<Rightarrow> nat option" where
  "match_len [] s = Some 0"
| "match_len (One k # p) [] = None"
| "match_len (One k # p) (x # xs) =
     (if in_class k x then map_option Suc (match_len p xs) else None)"
| "match_len (Opt k # p) [] = match_len p []"
| "match_len (Opt k # p) (x # xs) =
     (if in_class k x
      then (case match_len p xs of Some n \<Rightarrow> Some (Suc n) | None \<Rightarrow> match_len p (x # xs))
      else match_len p (x # xs))"

text \<open>
  \<open>re.findall\<close>: the matches from left to right, none overlapping an earlier one.
  \<open>findall_from p k s\<close> scans \<open>s\<close> whose first \<open>k\<close> characters belong to the previous
  match.
\<close>

fun findall_from :: "pattern \<Rightarrow> nat \<Rightarrow> string \<Rightarrow> string list" where
  "findall_from p k [] = (if k = 0 \<and> match_len p [] \<noteq> None then [[]] else [])"
| "findall_from p (Suc k) (x # xs) = findall_from p k xs"
| "findall_from p 0 (x # xs) =
     (case match_len p (x # xs) of
        None \<Rightarrow> findall_from p 0 xs
      | Some 0 \<Rightarrow> [] # findall_from p 0 xs
      | Some (Suc n) \<Rightarrow> take (Suc n) (x # xs) # findall_from p n xs)"

definition findall :: "pattern \<Rightarrow> string \<Rightarrow> string list" where
  "findall p text = findall_from p 0 text"

definition pat_plus91 :: pattern where
  "pat_plus91 = [One (Lit CHR ''+''), One (Lit CHR ''9''), One (Lit CHR ''1''), Opt Sep, One D69]
                 @ replicate 9 (One Digit)"

definition pat_91 :: pattern where
  "pat_91 = [One (Lit CHR ''9''), One (Lit CHR ''1''), Opt Sep, One D69] @ replicate 9 (One Digit)"

definition pat_zero :: pattern where
  "pat_zero = [One (Lit CHR ''0''), One D69] @ replicate 9 (One Digit)"

definition pat_plain :: pattern where
  "pat_plain = [One D69] @ replicate 9 (One Digit)"

definition pat_split :: pattern where
  "pat_split = [One D69] @ replicate 4 (One Digit) @ [Opt Sep] @ replicate 5 (One Digit)"

definition patterns :: "pattern list" where
  "patterns = [pat_plus91, pat_91, pat_zero, pat_plain, pat_split]"

text \<open>
  \<open>BaseScraper._extract_phone_numbers\<close>. The source returns \<open>list(set(normalized))\<close>,
  the distinct elements in an order the language leaves open; \<open>remdups\<close> is one such
  list, and the theorems below speak of its set of elements only.
\<close>

definition normalize_match :: "string \<Rightarrow> string list" where
  "normalize_match ph =
     (let digits = filter isdigit ph
      in if length digits \<ge> 10 then [slice_last 10 digits] else [])"

definition extract_phone_numbers :: "string \<Rightarrow> string list" where
  "extract_phone_numbers text =
     (let phones = concat (map (\<lambda>pattern. findall pattern text) patterns);
          normalized = concat (map normalize_match phones)
      in remdups normalized)"

text \<open>\<open>is_valid_phone\<close> of scrape_surat_verified.py; \<open>len(set(phone))\<close> counts the distinct characters.\<close>

definition is_valid_phone :: "string \<Rightarrow> bool" where
  "is_valid_phone ph =
     (if ph = [] \<or> length ph \<noteq> 10 then False
      else if hd ph \<notin> set ''6789'' then False
      else if length (remdups ph) < 4 then False
      else True)"


section \<open>Notions of the specification\<close>






text \<open>
  Two strings differ in letter case only: they have the same length and, position by
  position, the same character or a capital letter and its small letter.
\<close>

definition same_letter :: "char \<Rightarrow> char \<Rightarrow> bool" where
  "same_letter a b = (a = b \<or> (isupper a \<and> code b = code a + 32) \<or> (isupper b \<and> code a = code b + 32))"

definition same_modulo_case :: "string \<Rightarrow> string \<Rightarrow> bool" where
  "same_modulo_case s s' = list_all2 same_letter s s'"

text \<open>The keys present in a table, and the candidates of a batch that are new when their turn comes.\<close>

definition stored_keys :: "ElectricianDB list \<Rightarrow> string list" where
  "stored_keys rows = concat (map (\<lambda>r. case unique_key r of None \<Rightarrow> [] | Some k \<Rightarrow> [k]) rows)"

fun count_new :: "string list \<Rightarrow> Electrician list \<Rightarrow> nat" where
  "count_new present [] = 0"
| "count_new present (e # es) =
     (if get_unique_key e \<in> set present then count_new present es
      else Suc (count_new (get_unique_key e # present) es))"

text \<open>Two rows that agree on every column but the time stamp \<open>scraped_at\<close>.\<close>

definition same_observable :: "ElectricianDB \<Rightarrow> ElectricianDB \<Rightarrow> bool" where
  "same_observable r r' = (r'\<lparr>scraped_at := scraped_at r\<rparr> = r)"

text \<open>
  Two rows that agree on every column outside the six that an update may write.
\<close>

definition same_outside_update :: "ElectricianDB \<Rightarrow> ElectricianDB \<Rightarrow> bool" where
  "same_outside_update r r' =
     (r'\<lparr> name := name r, address := address r, rating := rating r,
          review_count := review_count r, source_url := source_url r,
          scraped_at := scraped_at r \<rparr> = r)"

text \<open>
  A candidate whose time stamp \<open>from_electrician\<close> can read, and a candidate that can be
  stored: its time stamp can be read and its two integer fields fit the database.
\<close>

definition stamp_ok :: "env \<Rightarrow> Electrician \<Rightarrow> bool" where
  "stamp_ok ev e = (Electrician.scraped_at e = [] \<or> fromisoformat ev (Electrician.scraped_at e) \<noteq> None)"

definition storable :: "env \<Rightarrow> Electrician \<Rightarrow> bool" where
  "storable ev e = (stamp_ok ev e \<and> sqlite_integer (Electrician.review_count e)
                     \<and> sqlite_integer (Electrician.experience_years e))"


section \<open>A concrete environment for the examples\<close>

text \<open>
  The general theorems hold for every clock, every time-stamp parser and every JSON
  encoder. The examples run with the following ones. \<open>fromisoformat_naive\<close> reads what
  \<open>datetime.isoformat()\<close> writes for a time without zone, \<open>YYYY-MM-DDTHH:MM:SS\<close> with an
  optional fraction of three or six digits, and refuses everything else, so where it
  answers it answers as \<open>datetime.fromisoformat\<close> does. \<open>json_dumps_ascii\<close> is
  \<open>json.dumps\<close> on a list of strings: the quotation mark, the backslash and five control
  characters get their short escapes, every other character outside the printable ASCII
  range its \<open>\u00XX\<close> escape.
\<close>

definition to_nat :: "string \<Rightarrow> nat" where
  "to_nat s = fold (\<lambda>c n. 10 * n + (code c - 48)) s 0"

definition leap_year :: "nat \<Rightarrow> bool" where
  "leap_year y = (y mod 4 = 0 \<and> (y mod 100 \<noteq> 0 \<or> y mod 400 = 0))"

definition days_in_month :: "nat \<Rightarrow> nat \<Rightarrow> nat" where
  "days_in_month y m =
     (if m = 2 then (if leap_year y then 29 else 28)
      else if m = 4 \<or> m = 6 \<or> m = 9 \<or> m = 11 then 30 else 31)"

definition fraction_micro :: "string \<Rightarrow> nat option" where
  "fraction_micro f =
     (if f = [] then Some 0
      else if hd f = CHR ''.'' \<and> list_all re_digit (tl f) \<and> length (tl f) = 3
      then Some (1000 * to_nat (tl f))
      else if hd f = CHR ''.'' \<and> list_all re_digit (tl f) \<and> length (tl f) = 6
      then Some (to_nat (tl f))
      else None)"

definition fromisoformat_naive :: "string \<Rightarrow> datetime option" where
  "fromisoformat_naive s =
     (if 19 \<le> length s
         \<and> list_all re_digit (take 4 s @ take 2 (drop 5 s) @ take 2 (drop 8 s)
                               @ take 2 (drop 11 s) @ take 2 (drop 14 s) @ take 2 (drop 17 s))
         \<and> s ! 4 = CHR ''-'' \<and> s ! 7 = CHR ''-'' \<and> s ! 10 = CHR ''T''
         \<and> s ! 13 = CHR '':'' \<and> s ! 16 = CHR '':''
      then (let y = to_nat (take 4 s); mo = to_nat (take 2 (drop 5 s));
                d = to_nat (take 2 (drop 8 s)); h = to_nat (take 2 (drop 11 s));
                mi = to_nat (take 2 (drop 14 s)); sec = to_nat (take 2 (drop 17 s))
            in case fraction_micro (drop 19 s) of
                 None \<Rightarrow> None
               | Some us \<Rightarrow>
                   (if 1 \<le> y \<and> 1 \<le> mo \<and> mo \<le> 12 \<and> 1 \<le> d \<and> d \<le> days_in_month y mo
                       \<and> h < 24 \<and> mi < 60 \<and> sec < 60
                    then Some (DateTime y mo d h mi sec us) else None))
      else None)"

definition hex_digit :: "nat \<Rightarrow> char" where
  "hex_digit d = (if d < 10 then char_of (48 + d) else char_of (87 + d))"

definition json_escape :: "char \<Rightarrow> string" where
  "json_escape c =
     (if c = CHR 0x22 \<or> c = CHR 0x5C then [CHR 0x5C, c]
      else if code c = 10 then [CHR 0x5C, CHR ''n'']
      else if code c = 13 then [CHR 0x5C, CHR ''r'']
      else if code c = 9 then [CHR 0x5C, CHR ''t'']
      else if code c = 8 then [CHR 0x5C, CHR ''b'']
      else if code c = 12 then [CHR 0x5C, CHR ''f'']
      else if code c < 32 \<or> 126 < code c
      then [CHR 0x5C, CHR ''u'', CHR ''0'', CHR ''0'', hex_digit (code c div 16), hex_digit (code c mod 16)]
      else [c])"

definition json_string :: "string \<Rightarrow> string" where
  "json_string s = [CHR 0x22] @ concat (map json_escape s) @ [CHR 0x22]"

fun json_items :: "string list \<Rightarrow> string" where
  "json_items [] = []"
| "json_items [x] = json_string x"
| "json_items (x # y # ys) = json_string x @ '', '' @ json_items (y # ys)"

definition json_dumps_ascii :: "string list \<Rightarrow> string" where
  "json_dumps_ascii xs = ''['' @ json_items xs @ '']''"

definition example_env :: env where
  "example_env = \<lparr> utcnow = (\<lambda>k. DateTime 2026 11 4 9 30 0 k),
                   fromisoformat = fromisoformat_naive,
                   json_dumps = json_dumps_ascii \<rparr>"


section \<open>Example records\<close>

text \<open>
  The candidate of the specification's first scenario, a candidate for the same
  business under another name and another spelling of the place, a candidate whose time
  stamp is not an ISO date, and a stored row that was verified by hand.
\<close>

definition cand_patel :: Electrician where
  "cand_patel = Electrician_init ''Patel Electric'' ''+91 98250 12345'' ''Surat'' ''Gujarat''
                  ''2026-11-04T09:00:00''"

definition cand_renamed :: Electrician where
  "cand_renamed = Electrician_init ''Patel and Sons'' ''9825012345'' ''SURAT'' ''gujarat'' []"

definition cand_bad_stamp :: Electrician where
  "cand_bad_stamp = Electrician_init ''Shah Electricals'' ''9876543210'' ''Surat'' ''Gujarat'' ''yesterday''"

definition row_verified :: ElectricianDB where
  "row_verified =
     \<lparr> id_pk = Some 1, name = ''Patel Electric'', phone = ''9825012345'', city = ''Surat'',
       state = ''Gujarat'', address = None, pincode = None, business_name = None,
       email = None, website = None, services = None, experience_years = None,
       rating = Some 4.5, review_count = Some 12, source = ''justdial'', source_url = None,
       verified = Some True, scraped_at = Some (DateTime 2026 10 1 8 0 0 0),
       unique_key = Some ''9825012345_surat_gujarat'', category = Some ''Electrician'',
       service_description = None, smart_meter_score = Some 40, smart_meter_notes = None,
       verified_by = Some ''User'', verified_at = Some (DateTime 2026 10 2 10 0 0 0) \<rparr>"


text \<open>More candidates and a second stored row, for batches.\<close>

definition cand_shah :: Electrician where
  "cand_shah = Electrician_init ''Shah Electricals'' ''09876543210'' ''Surat'' ''Gujarat'' []"

definition cand_mehta :: Electrician where
  "cand_mehta = Electrician_init ''Mehta Power'' ''9123456780'' ''Surat'' ''Gujarat'' []"

definition cand_desai :: Electrician where
  "cand_desai = Electrician_init ''Desai Wiring'' ''+91-9988776655'' ''Surat'' ''Gujarat''
                  ''2026-11-04T09:05:00''"

definition row_shah :: ElectricianDB where
  "row_shah =
     \<lparr> id_pk = Some 2, name = ''Shah Electricals'', phone = ''9876543210'', city = ''Surat'',
       state = ''Gujarat'', address = Some ''Varachha Road'', pincode = None, business_name = None,
       email = None, website = None, services = None, experience_years = None,
       rating = None, review_count = None, source = ''sulekha'', source_url = None,
       verified = Some False, scraped_at = Some (DateTime 2026 10 3 8 0 0 0),
       unique_key = Some ''9876543210_surat_gujarat'', category = None,
       service_description = None, smart_meter_score = Some 0, smart_meter_notes = None,
       verified_by = None, verified_at = None \<rparr>"

definition batch_of_five :: "Electrician list" where
  "batch_of_five = [cand_renamed, cand_mehta, cand_shah, cand_patel, cand_desai]"


text \<open>
  Candidates for the single-candidate scenarios: the first candidate with an address
  added, a listing scraped long ago, two candidates whose phone is no mobile number, and
  a candidate whose review count does not fit the database, and a candidate with
  services, a rating and the verified flag.
\<close>

definition cand_addr :: Electrician where
  "cand_addr = cand_patel\<lparr>Electrician.address := Some ''Ring Road''\<rparr>"

definition cand_old :: Electrician where
  "cand_old = Electrician_init ''Old Listing'' ''9898012345'' ''Surat'' ''Gujarat'' ''2020-01-01T00:00:00''"

definition cand_fake :: Electrician where
  "cand_fake = Electrician_init ''No Such Shop'' ''9999999999'' ''Surat'' ''Gujarat'' []"

definition cand_short :: Electrician where
  "cand_short = Electrician_init ''Half a Number'' ''12345'' ''Surat'' ''Gujarat'' []"

definition cand_overflow :: Electrician where
  "cand_overflow = (Electrician_init ''Big Reviews'' ''9812345670'' ''Surat'' ''Gujarat'' [])
                     \<lparr> Electrician.review_count := Some (2 ^ 63) \<rparr>"

definition cand_full :: Electrician where
  "cand_full = (Electrician_init ''Mehta Power'' ''9123456780'' ''Surat'' ''Gujarat'' [])
                 \<lparr> Electrician.services := [''wiring'', ''meter''],
                   Electrician.rating := Some 4,
                   Electrician.verified := True \<rparr>"


section \<open>Lemmas on the upsert\<close>

subsection \<open>update_first\<close>

lemma length_update_first [simp]: "length (update_first P f xs) = length xs"
  by (induction xs) auto

lemma update_first_nth:
  "i < length xs \<Longrightarrow>
   update_first P f xs ! i = (if P (xs ! i) \<and> (\<forall>j<i. \<not> P (xs ! j)) then f (xs ! i) else xs ! i)"
proof (induction xs arbitrary: i)
  case Nil
  then show ?case by simp
next
  case (Cons x xs)
  show ?case
  proof (cases i)
    case 0
    then show ?thesis by simp
  next
    case (Suc k)
    with Cons.prems have k: "k < length xs" by simp
    show ?thesis
    proof (cases "P x")
      case True
      then show ?thesis using Suc by auto
    next
      case False
      have "(\<forall>j<Suc k. \<not> P ((x # xs) ! j)) = (\<forall>j<k. \<not> P (xs ! j))"
        using False by (auto simp: less_Suc_eq_0_disj)
      then show ?thesis using False Suc Cons.IH [OF k] by auto
    qed
  qed
qed

lemma update_first_all2:
  "(\<And>x. R x x) \<Longrightarrow> (\<And>x. P x \<Longrightarrow> R x (f x)) \<Longrightarrow> list_all2 R xs (update_first P f xs)"
  by (induction xs) (auto simp: list_all2_refl)

lemma find_update_first:
  "(\<And>x. P x \<Longrightarrow> P (f x)) \<Longrightarrow> find P (update_first P f xs) = map_option f (find P xs)"
  by (induction xs) auto

lemma find_None_iff_keys: "(query_first k rows = None) = (k \<notin> set (stored_keys rows))"
  by (induction rows) (auto simp: query_first_def stored_keys_def has_key_def split: option.splits)

lemma stored_keys_update_first:
  "(\<And>x. unique_key (f x) = unique_key x) \<Longrightarrow> stored_keys (update_first P f rows) = stored_keys rows"
  by (induction rows) (auto simp: stored_keys_def)

lemma session_add_Inr:
  "session_add rows r = Inr rows' \<Longrightarrow> rows' = rows @ [inserted_row rows r]"
  by (simp add: session_add_def split: if_splits)

lemma session_add_Inl:
  "session_add rows r = Inl err \<Longrightarrow> err = OverflowError"
  by (simp add: session_add_def split: if_splits)

lemma inserted_row_key [simp]: "unique_key (inserted_row rows r) = unique_key r"
  by (simp add: inserted_row_def)

lemma stored_keys_append_row:
  "stored_keys (rows @ [r]) = stored_keys rows @ (case unique_key r of None \<Rightarrow> [] | Some k \<Rightarrow> [k])"
  by (simp add: stored_keys_def)

subsection \<open>merge_fields\<close>

lemma merge_fields_outside: "same_outside_update ex ((merge_fields ex r)\<lparr>scraped_at := st\<rparr>)"
  by (simp add: merge_fields_def same_outside_update_def Let_def)

lemma merge_fields_key [simp]: "unique_key (merge_fields ex r) = unique_key ex"
  by (simp add: merge_fields_def Let_def)

lemma merge_fields_verified [simp]:
  "verified (merge_fields ex r) = verified ex"
  "verified_by (merge_fields ex r) = verified_by ex"
  "verified_at (merge_fields ex r) = verified_at ex"
  by (simp_all add: merge_fields_def Let_def)

lemma merge_fields_idem:
  "name r' = name r \<Longrightarrow> address r' = address r \<Longrightarrow> rating r' = rating r \<Longrightarrow>
   review_count r' = review_count r \<Longrightarrow> source_url r' = source_url r \<Longrightarrow>
   same_observable ((merge_fields ex r)\<lparr>scraped_at := a\<rparr>)
     ((merge_fields ((merge_fields ex r)\<lparr>scraped_at := a\<rparr>) r')\<lparr>scraped_at := b\<rparr>)"
  by (simp add: merge_fields_def same_observable_def Let_def)

lemma merge_fields_self:
  "name r' = name r \<Longrightarrow> address r' = address r \<Longrightarrow> rating r' = rating r \<Longrightarrow>
   review_count r' = review_count r \<Longrightarrow> source_url r' = source_url r \<Longrightarrow>
   same_observable r ((merge_fields r r')\<lparr>scraped_at := b\<rparr>)"
  by (simp add: merge_fields_def same_observable_def Let_def)

subsection \<open>from_electrician\<close>

lemma from_electrician_ok:
  "stamp_ok ev e \<Longrightarrow> \<exists>r t'. from_electrician ev t e = Inr (r, t')"
  by (auto simp: from_electrician_def stamp_ok_def split: option.splits)

lemma from_electrician_raises:
  "\<not> stamp_ok ev e \<Longrightarrow> from_electrician ev t e = Inl (ValueError (Electrician.scraped_at e))"
  by (auto simp: from_electrician_def stamp_ok_def split: option.splits)

lemma from_electrician_Inr_stamp:
  "from_electrician ev t e = Inr (r, t') \<Longrightarrow> stamp_ok ev e"
  by (auto simp: from_electrician_def stamp_ok_def split: option.splits if_splits)

lemma from_electrician_Inl:
  "from_electrician ev t e = Inl err \<Longrightarrow> \<not> stamp_ok ev e \<and> err = ValueError (Electrician.scraped_at e)"
  by (auto simp: from_electrician_def stamp_ok_def split: option.splits if_splits)

lemma from_electrician_fields:
  assumes "from_electrician ev t e = Inr (r, t')"
  shows "name r = Electrician.name e" "address r = Electrician.address e"
    "rating r = Electrician.rating e" "review_count r = Electrician.review_count e"
    "source_url r = Electrician.source_url e" "unique_key r = Some (get_unique_key e)"
    "verified r = Some (Electrician.verified e)" "id_pk r = None" "smart_meter_score r = None"
  using assms by (auto simp: from_electrician_def split: option.splits if_splits)

lemma from_electrician_again:
  assumes "from_electrician ev t e = Inr (r, t')" "from_electrician ev u e = Inr (r2, u')"
  shows "r2\<lparr>scraped_at := scraped_at r\<rparr> = r"
  using assms by (auto simp: from_electrician_def split: option.splits if_splits)

subsection \<open>One round of the loop\<close>

lemma loop_body_committed:
  "loop_body ev upd e s = Inr s' \<Longrightarrow> committed s' = committed s"
  by (auto simp: loop_body_def Let_def split: option.splits if_splits sum.splits)

lemma loop_body_total:
  assumes "storable ev e"
  shows "\<exists>s'. loop_body ev upd e s = Inr s'"
proof -
  from assms have "stamp_ok ev e" by (simp add: storable_def)
  from from_electrician_ok [OF this, of "clock s"] obtain r t1
    where e: "from_electrician ev (clock s) e = Inr (r, t1)" by blast
  have "review_count r = Electrician.review_count e"
    and "experience_years r = Electrician.experience_years e"
    and "smart_meter_score r = None"
    using e by (auto simp: from_electrician_def split: option.splits if_splits)
  with assms have "sqlite_integer (review_count r)" "sqlite_integer (experience_years r)"
    "sqlite_integer (smart_meter_score r)"
    by (simp_all add: storable_def sqlite_integer_def)
  with e show ?thesis
    by (simp add: loop_body_def Let_def session_add_def split: option.splits)
qed

lemma loop_body_verified:
  assumes "loop_body ev upd e s = Inr s'" "i < length (pending s)"
  shows "i < length (pending s') \<and> verified (pending s' ! i) = verified (pending s ! i)
         \<and> verified_by (pending s' ! i) = verified_by (pending s ! i)
         \<and> verified_at (pending s' ! i) = verified_at (pending s ! i)"
  using assms
  by (auto simp: loop_body_def Let_def update_first_nth nth_append
           dest!: session_add_Inr split: option.splits if_splits sum.splits)

lemma loop_body_count:
  assumes "loop_body ev upd e s = Inr s'"
  shows "saved_count s' = saved_count s
            + (if get_unique_key e \<in> set (stored_keys (pending s)) then 0 else 1)"
    and "length (pending s') = length (pending s)
            + (if get_unique_key e \<in> set (stored_keys (pending s)) then 0 else 1)"
    and "set (stored_keys (pending s')) = insert (get_unique_key e) (set (stored_keys (pending s)))"
proof -
  let ?k = "get_unique_key e"
  show "saved_count s' = saved_count s + (if ?k \<in> set (stored_keys (pending s)) then 0 else 1)"
    using assms find_None_iff_keys [of ?k "pending s"]
    by (auto simp: loop_body_def Let_def split: option.splits if_splits sum.splits)
  show "length (pending s') = length (pending s) + (if ?k \<in> set (stored_keys (pending s)) then 0 else 1)"
    using assms find_None_iff_keys [of ?k "pending s"]
    by (auto simp: loop_body_def Let_def dest!: session_add_Inr
             split: option.splits if_splits sum.splits)
  show "set (stored_keys (pending s')) = insert ?k (set (stored_keys (pending s)))"
    using assms find_None_iff_keys [of ?k "pending s"]
    by (auto simp: loop_body_def Let_def stored_keys_update_first stored_keys_append_row
                   from_electrician_fields
             dest!: session_add_Inr split: option.splits if_splits sum.splits)
qed

subsection \<open>The whole loop\<close>

lemma for_loop_committed:
  "for_loop ev upd es s = (s', r) \<Longrightarrow> committed s' = committed s"
proof (induction es arbitrary: s)
  case Nil
  then show ?case by simp
next
  case (Cons e es)
  then show ?case
    by (auto split: sum.splits dest: loop_body_committed)
qed

lemma for_loop_verified:
  "for_loop ev upd es s = (s', r) \<Longrightarrow> i < length (pending s) \<Longrightarrow>
   i < length (pending s') \<and> verified (pending s' ! i) = verified (pending s ! i)
   \<and> verified_by (pending s' ! i) = verified_by (pending s ! i)
   \<and> verified_at (pending s' ! i) = verified_at (pending s ! i)"
proof (induction es arbitrary: s)
  case Nil
  then show ?case by simp
next
  case (Cons e es)
  show ?case
  proof (cases "loop_body ev upd e s")
    case (Inl err)
    with Cons.prems show ?thesis by simp
  next
    case (Inr s1)
    with Cons.prems have rest: "for_loop ev upd es s1 = (s', r)" by simp
    from loop_body_verified [OF Inr Cons.prems(2)] Cons.IH [OF rest]
    show ?thesis by simp
  qed
qed

lemma count_new_cong: "set p = set q \<Longrightarrow> count_new p es = count_new q es"
proof (induction es arbitrary: p q)
  case Nil
  then show ?case by simp
next
  case (Cons e es)
  have "count_new (get_unique_key e # p) es = count_new (get_unique_key e # q) es"
    using Cons.prems by (intro Cons.IH) simp
  then show ?case using Cons.prems Cons.IH [of p q] by simp
qed

lemma for_loop_count:
  "for_loop ev upd es s = (s', None) \<Longrightarrow>
   saved_count s' = saved_count s + count_new (stored_keys (pending s)) es
   \<and> length (pending s') = length (pending s) + count_new (stored_keys (pending s)) es"
proof (induction es arbitrary: s)
  case Nil
  then show ?case by simp
next
  case (Cons e es)
  let ?k = "get_unique_key e"
  show ?case
  proof (cases "loop_body ev upd e s")
    case (Inl err)
    with Cons.prems show ?thesis by simp
  next
    case (Inr s1)
    with Cons.prems have rest: "for_loop ev upd es s1 = (s', None)" by simp
    note ih = Cons.IH [OF rest]
    note c = loop_body_count [OF Inr]
    show ?thesis
    proof (cases "?k \<in> set (stored_keys (pending s))")
      case True
      then have "set (stored_keys (pending s1)) = set (stored_keys (pending s))"
        using c(3) by auto
      then have "count_new (stored_keys (pending s1)) es = count_new (stored_keys (pending s)) es"
        by (rule count_new_cong)
      then show ?thesis using True ih c(1,2) by simp
    next
      case False
      have "set (stored_keys (pending s1)) = set (?k # stored_keys (pending s))"
        using c(3) by simp
      then have "count_new (stored_keys (pending s1)) es = count_new (?k # stored_keys (pending s)) es"
        by (rule count_new_cong)
      then show ?thesis using False ih c(1,2) by simp
    qed
  qed
qed

lemma for_loop_total:
  "\<forall>e\<in>set es. storable ev e \<Longrightarrow> \<exists>s'. for_loop ev upd es s = (s', None)"
proof (induction es arbitrary: s)
  case Nil
  then show ?case by simp
next
  case (Cons e es)
  then obtain s1 where "loop_body ev upd e s = Inr s1"
    using loop_body_total [of ev e upd s] by auto
  then show ?case using Cons by simp
qed

lemma count_new_present: "\<forall>e\<in>set es. get_unique_key e \<in> set p \<Longrightarrow> count_new p es = 0"
  by (induction es) auto

section \<open>Monotonic verification\<close>

lemma save_verified_index:
  assumes "i < length db"
  shows "i < length (fst (save_to_database ev t es upd db))
         \<and> verified (fst (save_to_database ev t es upd db) ! i) = verified (db ! i)
         \<and> verified_by (fst (save_to_database ev t es upd db) ! i) = verified_by (db ! i)
         \<and> verified_at (fst (save_to_database ev t es upd db) ! i) = verified_at (db ! i)"
proof -
  let ?s0 = "\<lparr>committed = db, pending = db, clock = t, saved_count = 0\<rparr>"
  obtain s r where run: "for_loop ev upd es ?s0 = (s, r)" by (cases "for_loop ev upd es ?s0")
  have c: "committed s = db" using for_loop_committed [OF run] by simp
  have v: "i < length (pending s) \<and> verified (pending s ! i) = verified (db ! i)
         \<and> verified_by (pending s ! i) = verified_by (db ! i)
         \<and> verified_at (pending s ! i) = verified_at (db ! i)"
    using for_loop_verified [OF run, of i] assms by simp
  show ?thesis
  proof (cases r)
    case None
    then show ?thesis using run v by (simp add: save_to_database_def commit_def)
  next
    case (Some err)
    then show ?thesis using run c assms by (simp add: save_to_database_def rollback_def)
  qed
qed

text \<open>
  Claim C1. Let the \<open>i\<close>-th row of the table be verified and carry the identity key of
  a candidate \<open>c\<close> that is not verified. After \<open>save_to_database [c]\<close>, whatever the flag
  \<open>update_existing\<close> and whether the call returns or raises, the \<open>i\<close>-th row is still
  there and still verified, and its columns \<open>verified_by\<close> and \<open>verified_at\<close> hold what
  they held before.
\<close>

theorem verification_is_monotonic:
  assumes "i < length db"
      and "verified (db ! i) = Some True"
      and "unique_key (db ! i) = Some (get_unique_key c)"
      and "\<not> Electrician.verified c"
  shows "i < length (fst (save_to_database ev t [c] upd db))
         \<and> verified (fst (save_to_database ev t [c] upd db) ! i) = Some True
         \<and> verified_by (fst (save_to_database ev t [c] upd db) ! i) = verified_by (db ! i)
         \<and> verified_at (fst (save_to_database ev t [c] upd db) ! i) = verified_at (db ! i)"
  using save_verified_index [OF assms(1), of ev t "[c]" upd] assms(2) by simp

text \<open>
  The fourth scenario of the specification: the verified row meets an unverified
  candidate with the same key and another name. The name changes, the verification
  stays, and nothing is counted as inserted.
\<close>

theorem verification_is_monotonic_witness:
  "verified (fst (save_to_database example_env 0 [cand_renamed] True [row_verified]) ! 0) = Some True
   \<and> verified_by (fst (save_to_database example_env 0 [cand_renamed] True [row_verified]) ! 0) = Some ''User''
   \<and> name (fst (save_to_database example_env 0 [cand_renamed] True [row_verified]) ! 0) = ''Patel and Sons''
   \<and> snd (save_to_database example_env 0 [cand_renamed] True [row_verified]) = Inr 0"
proof -
  have h1: "0 < length [row_verified]" by simp
  have h2: "verified ([row_verified] ! 0) = Some True" by (simp add: row_verified_def)
  have h3: "unique_key ([row_verified] ! 0) = Some (get_unique_key cand_renamed)" by code_simp
  have h4: "\<not> Electrician.verified cand_renamed" by (simp add: cand_renamed_def Electrician_init_def)
  have n: "name (fst (save_to_database example_env 0 [cand_renamed] True [row_verified]) ! 0) = ''Patel and Sons''"
    by code_simp
  have m: "snd (save_to_database example_env 0 [cand_renamed] True [row_verified]) = Inr 0"
    by code_simp
  have vb: "verified_by ([row_verified] ! 0) = Some ''User''" by (simp add: row_verified_def)
  show ?thesis
    using verification_is_monotonic [OF h1 h2 h3 h4, of example_env 0 True] n m vb by simp
qed

section \<open>A batch of one candidate\<close>

lemma save_single:
  "save_to_database ev t [c] upd db =
     (case query_first (get_unique_key c) db of
        Some ex \<Rightarrow>
          (if upd
           then (case from_electrician ev t c of
                   Inl err \<Rightarrow> (db, Inl err)
                 | Inr (r, t1) \<Rightarrow>
                     (if truthy_int (review_count r) \<and> \<not> sqlite_integer (review_count r)
                      then (db, Inl OverflowError)
                      else (update_first (has_key (get_unique_key c))
                              (\<lambda>ex. (merge_fields ex r)\<lparr>scraped_at := Some (utcnow ev t1)\<rparr>) db,
                            Inr 0)))
           else (db, Inr 0))
      | None \<Rightarrow>
          (case from_electrician ev t c of
             Inl err \<Rightarrow> (db, Inl err)
           | Inr (r, t1) \<Rightarrow>
               (case session_add db r of
                  Inl err \<Rightarrow> (db, Inl err)
                | Inr rows \<Rightarrow> (rows, Inr 1))))"
  by (simp add: save_to_database_def loop_body_def Let_def commit_def rollback_def
           split: option.splits sum.splits prod.splits)

text \<open>
  A review count of \<open>2^63\<close> does not fit the database: the call raises
  \<open>OverflowError\<close> and leaves the table as it was, also when an earlier candidate of
  the batch had been added.
\<close>

lemma overflow_is_raised:
  "save_to_database example_env 0 [cand_overflow] True [row_shah] = ([row_shah], Inl OverflowError)
   \<and> save_to_database example_env 0 [cand_patel, cand_overflow] True [row_shah]
        = ([row_shah], Inl OverflowError)"
  by code_simp

section \<open>Batch atomicity\<close>

text \<open>
  Claim C10. \<open>save_to_database\<close> raises an exception to its caller exactly when the
  loop over the batch raised it, and then the table is the one before the call: what
  the batch had inserted or updated up to that point is rolled back.
\<close>


theorem failed_batch_is_rolled_back:
  "(save_to_database ev t es upd db = (db', Inl err))
     = (db' = db \<and> (\<exists>s. for_loop ev upd es \<lparr>committed = db, pending = db, clock = t, saved_count = 0\<rparr>
                            = (s, Some err)))"
proof -
  let ?s0 = "\<lparr>committed = db, pending = db, clock = t, saved_count = 0\<rparr>"
  obtain s r where run: "for_loop ev upd es ?s0 = (s, r)" by (cases "for_loop ev upd es ?s0")
  have c: "committed s = db" using for_loop_committed [OF run] by simp
  show ?thesis
  proof (cases r)
    case None
    then show ?thesis using run by (simp add: save_to_database_def)
  next
    case (Some e)
    then show ?thesis using run c by (auto simp: save_to_database_def rollback_def)
  qed
qed

text \<open>
  A batch of a good candidate and one with an unreadable time stamp: when the loop
  stops the transaction holds two rows, the table keeps its single row, and the
  \<open>ValueError\<close> reaches the caller.
\<close>

theorem failed_batch_is_rolled_back_witness:
  "save_to_database example_env 0 [cand_patel, cand_bad_stamp] True [row_shah]
     = ([row_shah], Inl (ValueError ''yesterday''))
   \<and> length (pending (fst (for_loop example_env True [cand_patel, cand_bad_stamp]
        \<lparr>committed = [row_shah], pending = [row_shah], clock = 0, saved_count = 0\<rparr>))) = 2"
proof -
  let ?s0 = "\<lparr>committed = [row_shah], pending = [row_shah], clock = 0, saved_count = 0\<rparr>"
  have e: "snd (for_loop example_env True [cand_patel, cand_bad_stamp] ?s0) = Some (ValueError ''yesterday'')"
    by code_simp
  have l: "length (pending (fst (for_loop example_env True [cand_patel, cand_bad_stamp] ?s0))) = 2"
    by code_simp
  have "\<exists>s. for_loop example_env True [cand_patel, cand_bad_stamp] ?s0 = (s, Some (ValueError ''yesterday''))"
    using e by (metis prod.collapse)
  then show ?thesis
    using failed_batch_is_rolled_back [of example_env 0 "[cand_patel, cand_bad_stamp]" True
        "[row_shah]" "[row_shah]" "ValueError ''yesterday''"] l
    by simp
qed

section \<open>The returned count\<close>

text \<open>
  Claim C5. The candidates are processed in order. When every candidate of the batch
  can be stored the call returns, and whenever it returns, the count is the number of
  candidates whose key was not in the table when their turn came, which is also the
  number of rows the table has gained. A batch whose keys are all stored returns 0.
\<close>


theorem batch_returns_insertions:
  "((\<forall>e\<in>set es. storable ev e) \<longrightarrow>
      (\<exists>db'. save_to_database ev t es upd db = (db', Inr (count_new (stored_keys db) es))))
   \<and> (\<forall>db' n. save_to_database ev t es upd db = (db', Inr n) \<longrightarrow>
         n = count_new (stored_keys db) es \<and> length db' = length db + n)
   \<and> ((\<forall>e\<in>set es. get_unique_key e \<in> set (stored_keys db)) \<longrightarrow> count_new (stored_keys db) es = 0)"
proof -
  let ?s0 = "\<lparr>committed = db, pending = db, clock = t, saved_count = 0\<rparr>"
  have ret: "n = count_new (stored_keys db) es \<and> length db' = length db + n"
    if "save_to_database ev t es upd db = (db', Inr n)" for db' n
  proof -
    obtain s r where run: "for_loop ev upd es ?s0 = (s, r)" by (cases "for_loop ev upd es ?s0")
    with that have r: "r = None" and n: "n = saved_count s" and d: "db' = pending s"
      by (auto simp: save_to_database_def commit_def split: option.splits)
    from for_loop_count [of ev upd es ?s0 s] run r n d show ?thesis by simp
  qed
  have tot: "\<exists>db'. save_to_database ev t es upd db = (db', Inr (count_new (stored_keys db) es))"
    if "\<forall>e\<in>set es. storable ev e"
  proof -
    from for_loop_total [OF that, of upd ?s0] obtain s where run: "for_loop ev upd es ?s0 = (s, None)"
      by blast
    then have "save_to_database ev t es upd db = (pending s, Inr (saved_count s))"
      by (simp add: save_to_database_def commit_def)
    with ret show ?thesis by auto
  qed
  show ?thesis using ret tot count_new_present by blast
qed

text \<open>
  The batch of the specification: five candidates, three of them with the keys of the
  two stored rows and two with new keys, count 2; and a batch of updates only, count 0.
\<close>

theorem batch_returns_insertions_witness:
  "list_all (storable example_env) batch_of_five
   \<and> snd (save_to_database example_env 0 batch_of_five True [row_verified, row_shah]) = Inr 2
   \<and> length (fst (save_to_database example_env 0 batch_of_five True [row_verified, row_shah])) = 4
   \<and> snd (save_to_database example_env 0 [cand_patel, cand_renamed, cand_shah] True [row_verified, row_shah]) = Inr 0"
proof -
  have h: "\<forall>e\<in>set batch_of_five. storable example_env e" by code_simp
  have c: "count_new (stored_keys [row_verified, row_shah]) batch_of_five = 2" by code_simp
  have u: "\<forall>e\<in>set [cand_patel, cand_renamed, cand_shah]. storable example_env e" by code_simp
  have k: "\<forall>e\<in>set [cand_patel, cand_renamed, cand_shah]. get_unique_key e \<in> set (stored_keys [row_verified, row_shah])"
    by code_simp
  note a = batch_returns_insertions [of batch_of_five example_env 0 True "[row_verified, row_shah]"]
  note b = batch_returns_insertions [of "[cand_patel, cand_renamed, cand_shah]" example_env 0 True "[row_verified, row_shah]"]
  from a h c obtain d1 where d1: "save_to_database example_env 0 batch_of_five True [row_verified, row_shah] = (d1, Inr 2)"
    by auto
  with a have "length d1 = 4" by auto
  moreover from b u k obtain d2 where
    "save_to_database example_env 0 [cand_patel, cand_renamed, cand_shah] True [row_verified, row_shah] = (d2, Inr 0)"
    by auto
  ultimately show ?thesis using h d1 by (simp add: list_all_iff)
qed

lemma update_first_twice:
  "(\<And>x. P x \<Longrightarrow> P (f x)) \<Longrightarrow>
   update_first P g (update_first P f xs) = update_first P (\<lambda>x. g (f x)) xs"
  by (induction xs) auto

lemma update_first_all2_both:
  "(\<And>x. R x x) \<Longrightarrow> (\<And>x. P x \<Longrightarrow> R (f x) (h x)) \<Longrightarrow>
   list_all2 R (update_first P f xs) (update_first P h xs)"
  by (induction xs) (auto simp: list_all2_refl)

lemma update_first_append_last:
  "find P xs = None \<Longrightarrow> update_first P g (xs @ [y]) = xs @ [if P y then g y else y]"
  by (induction xs) (auto split: if_splits)

lemma find_append_last:
  "find P xs = None \<Longrightarrow> find P (xs @ [y]) = (if P y then Some y else None)"
  by (induction xs) (auto split: if_splits)

lemma same_observable_refl [simp]: "same_observable r r"
  by (simp add: same_observable_def)

lemma same_observable_list_refl [simp]: "list_all2 same_observable xs xs"
  by (simp add: list_all2_refl)

lemma from_electrician_same_error:
  "from_electrician ev t c = Inl err \<Longrightarrow> from_electrician ev u c = Inl err"
  using from_electrician_Inl [of ev t c err] from_electrician_raises [of ev c u] by simp

lemma from_electrician_other_clock:
  assumes "from_electrician ev t c = Inr (r, t1)"
  obtains r' u1 where "from_electrician ev u c = Inr (r', u1)"
    and "name r' = name r" "address r' = address r" "rating r' = rating r"
    and "review_count r' = review_count r" "source_url r' = source_url r"
    and "experience_years r' = experience_years r" "smart_meter_score r' = smart_meter_score r"
proof -
  from from_electrician_Inr_stamp [OF assms] from_electrician_ok [of ev c u]
  obtain r' u1 where e: "from_electrician ev u c = Inr (r', u1)" by blast
  have "experience_years r' = experience_years r" "smart_meter_score r' = smart_meter_score r"
    using e assms by (auto simp: from_electrician_def split: option.splits if_splits)
  then show ?thesis
    using that [OF e] from_electrician_fields [OF e] from_electrician_fields [OF assms] by simp
qed

lemma session_add_same:
  "experience_years r' = experience_years r \<Longrightarrow> review_count r' = review_count r \<Longrightarrow>
   smart_meter_score r' = smart_meter_score r \<Longrightarrow>
   session_add rows r = Inl err \<Longrightarrow> session_add rows r' = Inl err"
  by (simp add: session_add_def split: if_splits)

lemma session_add_fits:
  "session_add rows r = Inr rows' \<Longrightarrow> sqlite_integer (review_count r)"
  by (simp add: session_add_def split: if_splits)

lemma inserted_row_merge [simp]:
  "name (inserted_row rows r) = name r" "address (inserted_row rows r) = address r"
  "rating (inserted_row rows r) = rating r" "review_count (inserted_row rows r) = review_count r"
  "source_url (inserted_row rows r) = source_url r"
  by (simp_all add: inserted_row_def)

section \<open>Idempotence\<close>

text \<open>
  Claim C2. Call \<open>save_to_database [c]\<close> twice in succession, with the same flag, at any
  two clock positions. The table after the second call has the same rows as after the
  first, column by column except \<open>scraped_at\<close>. If the first call returned a count, the
  second returns 0: it found the record and inserted nothing; if the first call raised,
  the second raises the same exception.
\<close>

theorem upsert_is_idempotent:
  assumes first: "save_to_database ev t [c] upd db = (db1, r1)"
      and second: "save_to_database ev u [c] upd db1 = (db2, r2)"
  shows "list_all2 same_observable db1 db2
         \<and> (case r1 of Inl err \<Rightarrow> r2 = Inl err | Inr n \<Rightarrow> r2 = Inr 0)"
proof -
  let ?k = "get_unique_key c"
  let ?P = "has_key ?k"
  have raised: ?thesis if "db1 = db" "r1 = Inl err" "save_to_database ev u [c] upd db = (db, Inl err)" for err
  proof -
    from that second have "db2 = db" by simp
    moreover from that second have "r2 = Inl err" by simp
    ultimately show ?thesis using that(1,2) by simp
  qed
  show ?thesis
  proof (cases "from_electrician ev t c")
    case (Inl err)
    note again = from_electrician_same_error [OF Inl, of u]
    show ?thesis
    proof (cases "query_first ?k db \<noteq> None \<and> \<not> upd")
      case True
      with first have a: "db1 = db" "r1 = Inr 0" by (auto simp: save_single)
      with second True have "db2 = db" "r2 = Inr 0" by (auto simp: save_single)
      with a show ?thesis by simp
    next
      case False
      with first Inl have "db1 = db" "r1 = Inl err"
        by (auto simp: save_single split: option.splits)
      moreover from False again have "save_to_database ev u [c] upd db = (db, Inl err)"
        by (auto simp: save_single split: option.splits)
      ultimately show ?thesis by (rule raised)
    qed
  next
    case (Inr p)
    obtain r t1 where p: "p = (r, t1)" by (cases p)
    note e1 = Inr [unfolded p]
    obtain r' u1 where e2: "from_electrician ev u c = Inr (r', u1)"
      and f: "name r' = name r" "address r' = address r" "rating r' = rating r"
             "review_count r' = review_count r" "source_url r' = source_url r"
      and g: "experience_years r' = experience_years r" "smart_meter_score r' = smart_meter_score r"
      by (rule from_electrician_other_clock [OF e1])
    let ?g = "\<lambda>ex. (merge_fields ex r')\<lparr>scraped_at := Some (utcnow ev u1)\<rparr>"
    show ?thesis
    proof (cases "query_first ?k db")
      case None
      then have fn: "find ?P db = None" by (simp add: query_first_def)
      show ?thesis
      proof (cases "session_add db r")
        case (Inl err)
        from first None e1 Inl have "db1 = db" "r1 = Inl err" by (simp_all add: save_single)
        moreover from None e2 session_add_same [OF g(1) f(4) g(2) Inl]
        have "save_to_database ev u [c] upd db = (db, Inl err)" by (simp add: save_single)
        ultimately show ?thesis by (rule raised)
      next
        case (Inr rows)
        let ?row = "inserted_row db r"
        from session_add_Inr [OF Inr] have rows: "rows = db @ [?row]" .
        from first None e1 Inr rows have a: "db1 = db @ [?row]" "r1 = Inr 1"
          by (simp_all add: save_single)
        have fits: "sqlite_integer (review_count r')" using session_add_fits [OF Inr] f(4) by simp
        have key: "?P ?row" using from_electrician_fields(6) [OF e1] by (simp add: has_key_def)
        have q: "query_first ?k db1 = Some ?row"
          using a(1) find_append_last [OF fn, of ?row] key by (simp add: query_first_def)
        show ?thesis
        proof (cases upd)
          case False
          with second q have "db2 = db1" "r2 = Inr 0" by (simp_all add: save_single)
          with a show ?thesis by simp
        next
          case True
          from second q True e2 fits have b: "db2 = update_first ?P ?g db1" "r2 = Inr 0"
            by (simp_all add: save_single)
          have "db2 = db @ [?g ?row]"
            using b(1) a(1) update_first_append_last [OF fn, of ?g ?row] key by simp
          moreover have "same_observable ?row (?g ?row)"
            by (rule merge_fields_self) (simp_all add: f)
          ultimately have "list_all2 same_observable db1 db2"
            using a(1) by (simp add: list_all2_appendI)
          with a b show ?thesis by simp
        qed
      qed
    next
      case (Some ex)
      show ?thesis
      proof (cases upd)
        case False
        from first Some False have a: "db1 = db" "r1 = Inr 0" by (simp_all add: save_single)
        from second a Some False have "db2 = db" "r2 = Inr 0" by (simp_all add: save_single)
        with a show ?thesis by simp
      next
        case True
        show ?thesis
        proof (cases "truthy_int (review_count r) \<and> \<not> sqlite_integer (review_count r)")
          case over: True
          from first Some True e1 over have "db1 = db" "r1 = Inl OverflowError"
            by (simp_all add: save_single)
          moreover from Some True e2 over f(4)
          have "save_to_database ev u [c] upd db = (db, Inl OverflowError)"
            by (simp add: save_single)
          ultimately show ?thesis by (rule raised)
        next
          case fits: False
          let ?f = "\<lambda>ex. (merge_fields ex r)\<lparr>scraped_at := Some (utcnow ev t1)\<rparr>"
          from first Some True e1 fits have a: "db1 = update_first ?P ?f db" "r1 = Inr 0"
            by (auto simp: save_single)
          have keep: "\<And>x. ?P x \<Longrightarrow> ?P (?f x)" by (simp add: has_key_def)
          have q: "query_first ?k db1 = Some (?f ex)"
            using Some a(1) find_update_first [of ?P ?f db, OF keep] by (simp add: query_first_def)
          from second q True e2 fits f(4) have b: "db2 = update_first ?P ?g db1" "r2 = Inr 0"
            by (auto simp: save_single)
          have "db2 = update_first ?P (\<lambda>x. ?g (?f x)) db"
            using b(1) a(1) update_first_twice [of ?P ?f ?g db, OF keep] by simp
          moreover have "list_all2 same_observable (update_first ?P ?f db)
                           (update_first ?P (\<lambda>x. ?g (?f x)) db)"
            by (rule update_first_all2_both) (simp_all add: merge_fields_idem f)
          ultimately show ?thesis using a b by simp
        qed
      qed
    qed
  qed
qed

text \<open>The first scenario, run twice on an empty table: count 1, then count 0.\<close>

theorem upsert_is_idempotent_witness:
  "snd (save_to_database example_env 0 [cand_patel] True []) = Inr 1
   \<and> snd (save_to_database example_env 0 [cand_patel] True
            (fst (save_to_database example_env 0 [cand_patel] True []))) = Inr 0
   \<and> list_all2 same_observable
        (fst (save_to_database example_env 0 [cand_patel] True []))
        (fst (save_to_database example_env 0 [cand_patel] True
               (fst (save_to_database example_env 0 [cand_patel] True []))))"
proof -
  let ?one = "save_to_database example_env 0 [cand_patel] True []"
  let ?two = "save_to_database example_env 0 [cand_patel] True (fst ?one)"
  have r1: "snd ?one = Inr 1" by code_simp
  have a: "?one = (fst ?one, snd ?one)" by simp
  have b: "?two = (fst ?two, snd ?two)" by simp
  from upsert_is_idempotent [OF a b] r1 show ?thesis by simp
qed

lemma merge_fields_only_when:
  "name (merge_fields ex r) = name ex \<or> (name (merge_fields ex r) = name r \<and> name r \<noteq> [])"
  "address (merge_fields ex r) = address ex
     \<or> (address (merge_fields ex r) = address r \<and> address r \<noteq> None \<and> address r \<noteq> Some [])"
  "rating (merge_fields ex r) = rating ex
     \<or> (rating (merge_fields ex r) = rating r \<and> rating r \<noteq> None)"
  "review_count (merge_fields ex r) = review_count ex
     \<or> (review_count (merge_fields ex r) = review_count r \<and> review_count r \<noteq> None)"
  "source_url (merge_fields ex r) = source_url ex
     \<or> (source_url (merge_fields ex r) = source_url r \<and> source_url r \<noteq> None \<and> source_url r \<noteq> Some [])"
  by (auto simp: merge_fields_def Let_def truthy_str_def truthy_float_def truthy_int_def
           split: option.splits)

section \<open>The frame of an update\<close>

text \<open>
  Claim C6. Let the \<open>i\<close>-th row be the first row with the candidate's key. After
  \<open>save_to_database [c]\<close> the table has the same length, every other row is unchanged,
  and the \<open>i\<close>-th row differs from the old one at most in \<open>name\<close>, \<open>address\<close>, \<open>rating\<close>,
  \<open>review_count\<close>, \<open>source_url\<close> and the time stamp. Each of the five either keeps its
  value or takes the candidate's, and it takes the candidate's only if that is not
  \<open>None\<close> and not the empty string.
\<close>

theorem update_writes_five_fields_only:
  assumes "i < length db"
      and "unique_key (db ! i) = Some (get_unique_key c)"
      and "\<forall>j<i. unique_key (db ! j) \<noteq> Some (get_unique_key c)"
      and "save_to_database ev t [c] upd db = (db', out)"
  shows "length db' = length db
     \<and> (\<forall>j<length db. j \<noteq> i \<longrightarrow> db' ! j = db ! j)
     \<and> same_outside_update (db ! i) (db' ! i)
     \<and> (name (db' ! i) = name (db ! i)
          \<or> (name (db' ! i) = Electrician.name c \<and> Electrician.name c \<noteq> []))
     \<and> (address (db' ! i) = address (db ! i)
          \<or> (address (db' ! i) = Electrician.address c
              \<and> Electrician.address c \<noteq> None \<and> Electrician.address c \<noteq> Some []))
     \<and> (rating (db' ! i) = rating (db ! i)
          \<or> (rating (db' ! i) = Electrician.rating c \<and> Electrician.rating c \<noteq> None))
     \<and> (review_count (db' ! i) = review_count (db ! i)
          \<or> (review_count (db' ! i) = Electrician.review_count c \<and> Electrician.review_count c \<noteq> None))
     \<and> (source_url (db' ! i) = source_url (db ! i)
          \<or> (source_url (db' ! i) = Electrician.source_url c
              \<and> Electrician.source_url c \<noteq> None \<and> Electrician.source_url c \<noteq> Some []))"
proof -
  let ?k = "get_unique_key c"
  let ?P = "has_key ?k"
  have Pi: "?P (db ! i)" and before: "\<forall>j<i. \<not> ?P (db ! j)"
    using assms(2,3) by (simp_all add: has_key_def)
  have q: "query_first ?k db = Some (db ! i)"
    unfolding query_first_def find_Some_iff using assms(1) Pi before by blast
  have unchanged: ?thesis if "db' = db"
    using that by (simp add: same_outside_update_def)
  show ?thesis
  proof (cases "upd")
    case False
    with assms(4) q have "db' = db" by (simp add: save_single)
    then show ?thesis by (rule unchanged)
  next
    case True
    show ?thesis
    proof (cases "from_electrician ev t c")
      case (Inl err)
      with assms(4) q True have "db' = db" by (simp add: save_single)
      then show ?thesis by (rule unchanged)
    next
      case (Inr p)
      obtain r t1 where p: "p = (r, t1)" by (cases p)
      note e = Inr [unfolded p]
      let ?f = "\<lambda>ex. (merge_fields ex r)\<lparr>scraped_at := Some (utcnow ev t1)\<rparr>"
      from assms(4) q True e have "db' = db \<or> db' = update_first ?P ?f db"
        by (auto simp: save_single split: if_splits)
      then show ?thesis
      proof
        assume "db' = db"
        then show ?thesis by (rule unchanged)
      next
      assume d: "db' = update_first ?P ?f db"
      have len: "length db' = length db" using d by simp
      have at_i: "db' ! i = ?f (db ! i)"
        using d update_first_nth [OF assms(1), of ?P ?f] Pi before by simp
      have others: "db' ! j = db ! j" if "j < length db" "j \<noteq> i" for j
      proof (cases "j < i")
        case True
        then have "\<not> ?P (db ! j)" using before by simp
        then show ?thesis using d update_first_nth [OF that(1), of ?P ?f] by simp
      next
        case False
        with that(2) have "i < j" by simp
        then have "\<not> (\<forall>l<j. \<not> ?P (db ! l))" using Pi by blast
        then have "update_first ?P ?f db ! j = db ! j"
          by (simp only: update_first_nth [OF that(1), of ?P ?f] if_False simp_thms)
        then show ?thesis using d by simp
      qed
      note f = from_electrician_fields [OF e]
      show ?thesis
        using len others at_i merge_fields_outside [where ex = "db ! i" and r = r and st = "Some (utcnow ev t1)"]
          merge_fields_only_when [of "db ! i" r] f(1-5)
        by simp
      qed
    qed
  qed
qed

text \<open>
  The second scenario: the candidate comes again with an address and no rating. The
  address is filled in, the rating stays, the other row is untouched.
\<close>

theorem update_writes_five_fields_only_witness:
  "address (fst (save_to_database example_env 0 [cand_addr] True [row_shah, row_verified]) ! 1) = Some ''Ring Road''
   \<and> rating (fst (save_to_database example_env 0 [cand_addr] True [row_shah, row_verified]) ! 1) = Some 4.5
   \<and> same_outside_update row_verified
        (fst (save_to_database example_env 0 [cand_addr] True [row_shah, row_verified]) ! 1)
   \<and> fst (save_to_database example_env 0 [cand_addr] True [row_shah, row_verified]) ! 0 = row_shah"
proof -
  let ?db = "[row_shah, row_verified]"
  let ?res = "save_to_database example_env 0 [cand_addr] True ?db"
  have h1: "1 < length ?db" by simp
  have h2: "unique_key (?db ! 1) = Some (get_unique_key cand_addr)" by code_simp
  have h3: "\<forall>j<1. unique_key (?db ! j) \<noteq> Some (get_unique_key cand_addr)" by code_simp
  have h4: "?res = (fst ?res, snd ?res)" by simp
  have a: "address (fst ?res ! 1) = Some ''Ring Road''" by code_simp
  have r: "rating (row_verified) = Some 4.5" by (simp add: row_verified_def)
  have ra: "Electrician.rating cand_addr = None"
    by (simp add: cand_addr_def cand_patel_def Electrician_init_def)
  from update_writes_five_fields_only [OF h1 h2 h3 h4] a r ra
  show ?thesis by simp
qed

section \<open>Insertion\<close>

lemma from_electrician_row:
  assumes "from_electrician ev t c = Inr (r, t1)"
  shows "phone r = Electrician.phone c" "city r = Electrician.city c"
    "state r = Electrician.state c" "pincode r = Electrician.pincode c"
    "business_name r = Electrician.business_name c" "email r = Electrician.email c"
    "website r = Electrician.website c"
    "services r = (if Electrician.services c = [] then None
                   else Some (json_dumps ev (Electrician.services c)))"
    "experience_years r = Electrician.experience_years c" "source r = Electrician.source c"
    "scraped_at r = (if Electrician.scraped_at c = [] then Some (utcnow ev t)
                     else fromisoformat ev (Electrician.scraped_at c))"
    "category r = None" "service_description r = None" "smart_meter_notes r = None"
    "verified_by r = None" "verified_at r = None"
  using assms by (auto simp: from_electrician_def split: option.splits if_splits)

text \<open>
  Claim C8, as the code has it. When the candidate's key is not in the table and the
  candidate can be stored, \<open>save_to_database [c]\<close> returns 1 and appends one row. The row
  copies the candidate field by field (the services as JSON text, \<open>None\<close> for an empty
  list), carries the candidate's key and verified flag, and leaves the category, the
  notes and the verification metadata empty. Its \<open>scraped_at\<close> is the candidate's own time
  stamp, and the clock reading only when the candidate has none. A candidate built with
  the constructor's defaults gives a row without rating and review count, not verified.
\<close>
theorem insert_copies_candidate:
  assumes "get_unique_key c \<notin> set (stored_keys db)"
      and "storable ev c"
  shows "\<exists>row. save_to_database ev t [c] upd db = (db @ [row], Inr 1)
     \<and> name row = Electrician.name c \<and> phone row = Electrician.phone c
     \<and> city row = Electrician.city c \<and> state row = Electrician.state c
     \<and> address row = Electrician.address c \<and> pincode row = Electrician.pincode c
     \<and> business_name row = Electrician.business_name c \<and> email row = Electrician.email c
     \<and> website row = Electrician.website c
     \<and> services row = (if Electrician.services c = [] then None
                        else Some (json_dumps ev (Electrician.services c)))
     \<and> experience_years row = Electrician.experience_years c
     \<and> rating row = Electrician.rating c \<and> review_count row = Electrician.review_count c
     \<and> source row = Electrician.source c \<and> source_url row = Electrician.source_url c
     \<and> verified row = Some (Electrician.verified c)
     \<and> scraped_at row = (if Electrician.scraped_at c = [] then Some (utcnow ev t)
                          else fromisoformat ev (Electrician.scraped_at c))
     \<and> unique_key row = Some (get_unique_key c)
     \<and> id_pk row = Some (next_id db) \<and> smart_meter_score row = Some 0
     \<and> category row = None \<and> service_description row = None \<and> smart_meter_notes row = None
     \<and> verified_by row = None \<and> verified_at row = None
     \<and> (\<forall>nm ph ct st iso. c = Electrician_init nm ph ct st iso \<longrightarrow>
            rating row = None \<and> review_count row = None \<and> verified row = Some False)"
proof -
  from assms(1) have q: "query_first (get_unique_key c) db = None"
    by (simp add: find_None_iff_keys)
  from assms(2) have ok: "stamp_ok ev c" and fits: "sqlite_integer (Electrician.review_count c)"
    "sqlite_integer (Electrician.experience_years c)"
    by (simp_all add: storable_def)
  from from_electrician_ok [OF ok, of t] obtain r t1
    where e: "from_electrician ev t c = Inr (r, t1)" by blast
  note f = from_electrician_fields [OF e] from_electrician_row [OF e]
  let ?row = "inserted_row db r"
  have "session_add db r = Inr (db @ [?row])"
    using fits f by (simp add: session_add_def sqlite_integer_def)
  then have s: "save_to_database ev t [c] upd db = (db @ [?row], Inr 1)"
    using q e by (simp add: save_single)
  have d: "Electrician.rating (Electrician_init nm ph ct st iso) = None
           \<and> Electrician.review_count (Electrician_init nm ph ct st iso) = None
           \<and> \<not> Electrician.verified (Electrician_init nm ph ct st iso)" for nm ph ct st iso
    by (simp add: Electrician_init_def)
  show ?thesis
    by (rule exI [of _ ?row]) (simp add: s f d inserted_row_def del: One_nat_def)
qed

text \<open>A candidate with services and no time stamp, inserted next to a stored row.\<close>

theorem insert_copies_candidate_witness:
  "snd (save_to_database example_env 0 [cand_full] True [row_shah]) = Inr 1
   \<and> length (fst (save_to_database example_env 0 [cand_full] True [row_shah])) = 2
   \<and> services (fst (save_to_database example_env 0 [cand_full] True [row_shah]) ! 1)
        = Some (json_dumps_ascii [''wiring'', ''meter''])
   \<and> scraped_at (fst (save_to_database example_env 0 [cand_full] True [row_shah]) ! 1)
        = Some (DateTime 2026 11 4 9 30 0 0)
   \<and> verified (fst (save_to_database example_env 0 [cand_full] True [row_shah]) ! 1) = Some True"
proof -
  have h1: "get_unique_key cand_full \<notin> set (stored_keys [row_shah])" by code_simp
  have h2: "storable example_env cand_full" by code_simp
  from insert_copies_candidate [OF h1 h2, of 0 True] obtain row where
    s: "save_to_database example_env 0 [cand_full] True [row_shah] = ([row_shah] @ [row], Inr 1)"
    and sv: "services row = (if Electrician.services cand_full = [] then None
                        else Some (json_dumps example_env (Electrician.services cand_full)))"
    and st: "scraped_at row = (if Electrician.scraped_at cand_full = [] then Some (utcnow example_env 0)
                          else fromisoformat example_env (Electrician.scraped_at cand_full))"
    and v: "verified row = Some (Electrician.verified cand_full)"
    by blast
  show ?thesis
    using s sv st v by (simp add: cand_full_def Electrician_init_def example_env_def)
qed

text \<open>
  The claim as the specification words it sets the time stamp of a new row to the
  current time. A listing scraped in 2020 and inserted in 2026 keeps its 2020 stamp.
\<close>

theorem insert_timestamp_counterexample:
  "snd (save_to_database example_env 0 [cand_old] True []) = Inr 1
   \<and> map scraped_at (fst (save_to_database example_env 0 [cand_old] True []))
        = [Some (DateTime 2020 1 1 0 0 0 0)]
   \<and> utcnow example_env 0 = DateTime 2026 11 4 9 30 0 0
   \<and> Electrician.scraped_at cand_old = ''2020-01-01T00:00:00''"
  by code_simp

section \<open>The identity key\<close>

lemma lower_up: "isupper x \<Longrightarrow> code y = code x + 32 \<Longrightarrow> lower_char x = y"
proof -
  assume a: "isupper x" "code y = code x + 32"
  have "char_of (code y) = y" by (simp add: code_def)
  with a show ?thesis by (simp add: lower_char_def)
qed

lemma small_not_upper: "isupper x \<Longrightarrow> code y = code x + 32 \<Longrightarrow> \<not> isupper y"
  unfolding isupper_def by arith

lemma lower_low: "isupper x \<Longrightarrow> code y = code x + 32 \<Longrightarrow> lower_char y = y"
  using small_not_upper [of x y] by (simp add: lower_char_def)

lemma same_letter_lower: "same_letter a b \<Longrightarrow> lower_char a = lower_char b"
proof -
  assume "same_letter a b"
  then consider "a = b" | "isupper a" "code b = code a + 32" | "isupper b" "code a = code b + 32"
    unfolding same_letter_def by blast
  then show ?thesis
  proof cases
    case 1
    then show ?thesis by simp
  next
    case 2
    then show ?thesis using lower_up [of a b] lower_low [of a b] by simp
  next
    case 3
    then show ?thesis using lower_up [of b a] lower_low [of b a] by simp
  qed
qed

lemma same_modulo_case_lower: "same_modulo_case s s' \<Longrightarrow> lower s = lower s'"
  unfolding same_modulo_case_def lower_def
  by (induction rule: list_all2_induct) (simp_all add: same_letter_lower)

text \<open>
  Claim C9. The key is a function of the phone, the city and the state alone: two
  candidates that agree on the three have the same key, whatever their other fields.
  It is also the same for two candidates with the same phone whose cities and states
  differ in letter case only.
\<close>

theorem key_is_case_insensitive:
  "(Electrician.phone a = Electrician.phone b \<and> Electrician.city a = Electrician.city b
      \<and> Electrician.state a = Electrician.state b \<longrightarrow> get_unique_key a = get_unique_key b)
   \<and> (Electrician.phone a = Electrician.phone b
      \<and> same_modulo_case (Electrician.city a) (Electrician.city b)
      \<and> same_modulo_case (Electrician.state a) (Electrician.state b)
        \<longrightarrow> get_unique_key a = get_unique_key b)"
proof (intro conjI impI)
  assume "Electrician.phone a = Electrician.phone b \<and> Electrician.city a = Electrician.city b
      \<and> Electrician.state a = Electrician.state b"
  then show "get_unique_key a = get_unique_key b" unfolding get_unique_key_def by simp
next
  assume h: "Electrician.phone a = Electrician.phone b
      \<and> same_modulo_case (Electrician.city a) (Electrician.city b)
      \<and> same_modulo_case (Electrician.state a) (Electrician.state b)"
  from h have p: "Electrician.phone a = Electrician.phone b" by blast
  from h have c: "lower (Electrician.city a) = lower (Electrician.city b)"
    by (blast intro: same_modulo_case_lower)
  from h have s: "lower (Electrician.state a) = lower (Electrician.state b)"
    by (blast intro: same_modulo_case_lower)
  show "get_unique_key a = get_unique_key b"
    unfolding get_unique_key_def p c s ..
qed

text \<open>The same phone under \<open>SURAT, gujarat\<close> and under \<open>Surat, GUJARAT\<close>.\<close>

theorem key_is_case_insensitive_witness:
  "same_modulo_case ''SURAT'' ''Surat'' \<and> same_modulo_case ''gujarat'' ''GUJARAT''
   \<and> get_unique_key cand_renamed = ''9825012345_surat_gujarat''
   \<and> get_unique_key (cand_renamed\<lparr>Electrician.city := ''Surat'', Electrician.state := ''GUJARAT''\<rparr>)
        = ''9825012345_surat_gujarat''"
proof -
  let ?b = "cand_renamed\<lparr>Electrician.city := ''Surat'', Electrician.state := ''GUJARAT''\<rparr>"
  have c: "same_modulo_case ''SURAT'' ''Surat''"
    by (simp add: same_modulo_case_def same_letter_def isupper_def code_def)
  have s: "same_modulo_case ''gujarat'' ''GUJARAT''"
    by (simp add: same_modulo_case_def same_letter_def isupper_def code_def)
  have k: "get_unique_key cand_renamed = ''9825012345_surat_gujarat''" by code_simp
  have f: "Electrician.phone cand_renamed = Electrician.phone ?b"
          "Electrician.city cand_renamed = ''SURAT''" "Electrician.city ?b = ''Surat''"
          "Electrician.state cand_renamed = ''gujarat''" "Electrician.state ?b = ''GUJARAT''"
    by (simp_all add: cand_renamed_def Electrician_init_def)
  have "get_unique_key cand_renamed = get_unique_key ?b"
    using key_is_case_insensitive [of cand_renamed ?b] c s
    by (simp only: f simp_thms)
  with c s k show ?thesis by (simp only: simp_thms)
qed

section \<open>Degenerate numbers\<close>

lemma is_valid_phone_distinct: "length (remdups ph) < 4 \<Longrightarrow> \<not> is_valid_phone ph"
  by (simp add: is_valid_phone_def)

text \<open>
  Claim C4 asks that a number with fewer than four distinct digits never be among the
  numbers returned. \<open>is_valid_phone\<close> refuses such a number, as the lemma above says, but
  \<open>_extract_phone_numbers\<close> has no such test: on the text \<open>9999999999\<close>, one distinct
  digit, it returns that number.
\<close>

theorem degenerate_number_is_extracted:
  "extract_phone_numbers ''9999999999'' = [''9999999999'']
   \<and> length (remdups ''9999999999'') = 1
   \<and> is_valid_phone ''9999999999'' = False"
  by code_simp

section \<open>No rejection in the upsert\<close>

text \<open>
  Claim C3, as the code has it. \<open>save_to_database\<close> never looks at the form of the
  phone: every candidate that can be stored is stored, whatever its phone.
  The call returns 1 when the key was absent and 0 when it was present, and afterwards
  the table holds a row with the candidate's key.
\<close>
theorem every_candidate_is_persisted:
  assumes "storable ev c"
  shows "\<exists>db'. save_to_database ev t [c] upd db
                 = (db', Inr (if get_unique_key c \<in> set (stored_keys db) then 0 else 1))
              \<and> get_unique_key c \<in> set (stored_keys db')"
proof -
  let ?k = "get_unique_key c"
  from assms have ok: "stamp_ok ev c" and fits: "sqlite_integer (Electrician.review_count c)"
    "sqlite_integer (Electrician.experience_years c)"
    by (simp_all add: storable_def)
  from from_electrician_ok [OF ok, of t] obtain r t1
    where e: "from_electrician ev t c = Inr (r, t1)" by blast
  note f = from_electrician_fields [OF e]
  have rc: "sqlite_integer (review_count r)" using fits f by simp
  show ?thesis
  proof (cases "query_first ?k db")
    case None
    then have absent: "?k \<notin> set (stored_keys db)" by (simp add: find_None_iff_keys)
    have "experience_years r = Electrician.experience_years c"
      using e by (auto simp: from_electrician_def split: option.splits if_splits)
    then have "session_add db r = Inr (db @ [inserted_row db r])"
      using fits f by (simp add: session_add_def sqlite_integer_def)
    then have "save_to_database ev t [c] upd db = (db @ [inserted_row db r], Inr 1)"
      using None e by (simp add: save_single)
    moreover have "?k \<in> set (stored_keys (db @ [inserted_row db r]))"
      using f(6) by (simp add: stored_keys_append_row)
    ultimately show ?thesis using absent by simp
  next
    case (Some ex)
    then have present: "?k \<in> set (stored_keys db)"
      using find_None_iff_keys [of ?k db] by simp
    show ?thesis
    proof (cases upd)
      case False
      with Some have "save_to_database ev t [c] upd db = (db, Inr 0)" by (simp add: save_single)
      with present show ?thesis by simp
    next
      case True
      let ?f = "\<lambda>ex. (merge_fields ex r)\<lparr>scraped_at := Some (utcnow ev t1)\<rparr>"
      have "save_to_database ev t [c] upd db = (update_first (has_key ?k) ?f db, Inr 0)"
        using Some True e rc by (simp add: save_single)
      moreover have "stored_keys (update_first (has_key ?k) ?f db) = stored_keys db"
        by (rule stored_keys_update_first) simp
      ultimately show ?thesis using present by simp
    qed
  qed
qed

text \<open>The third scenario of the specification: the phone \<open>9999999999\<close> is stored.\<close>

theorem every_candidate_is_persisted_witness:
  "is_valid_phone ''9999999999'' = False
   \<and> snd (save_to_database example_env 0 [cand_fake] True [row_shah]) = Inr 1
   \<and> ''9999999999_surat_gujarat''
        \<in> set (stored_keys (fst (save_to_database example_env 0 [cand_fake] True [row_shah])))"
proof -
  have h: "storable example_env cand_fake" by code_simp
  have k: "get_unique_key cand_fake = ''9999999999_surat_gujarat''" by code_simp
  have a: "get_unique_key cand_fake \<notin> set (stored_keys [row_shah])" by code_simp
  have v: "is_valid_phone ''9999999999'' = False" by code_simp
  from every_candidate_is_persisted [OF h, of 0 True "[row_shah]"] a k v
  show ?thesis by auto
qed

text \<open>
  The claim as the specification words it rejects a candidate whose phone is no
  mobile number and leaves the table as it was. The phone \<open>12345\<close> yields no number and
  is not valid, and the candidate is inserted into the empty table all the same.
\<close>

theorem invalid_phone_counterexample:
  "extract_phone_numbers ''12345'' = []
   \<and> is_valid_phone ''12345'' = False
   \<and> save_to_database example_env 0 [cand_short] True [] \<noteq> ([], Inr 0)
   \<and> snd (save_to_database example_env 0 [cand_short] True []) = Inr 1
   \<and> map phone (fst (save_to_database example_env 0 [cand_short] True [])) = [''12345'']
   \<and> map unique_key (fst (save_to_database example_env 0 [cand_short] True []))
        = [Some ''12345_surat_gujarat'']"
  by code_simp

section \<open>Recovery of a number from a text\<close>
































end
